theory Spec2Isabelle
  imports Main "HOL-Library.AList"
begin

section \<open>The subscription hub (package hub)\<close>

subsection \<open>Data model\<close>

text \<open>
  Go pointers are modelled by identities. A \<open>*Client\<close> and a \<open>*container.Container\<close> are
  opaque identities (natural numbers); a \<open>*Ressource\<close> is an address into the store of
  Ressource objects, and a \<open>*ResponseFrame\<close> an address into the store of frames. Allocation
  appends to the store, so a new object always gets an address no live pointer holds.
\<close>

type_synonym client = nat
type_synonym container = nat
type_synonym res_ref = nat
type_synonym frame_ref = nat
type_synonym payload = string

text \<open>\<open>stream.Set\<close>: one sample of an underlying stream; only its \<open>Data\<close> is read.\<close>

record stream_Set =
  Data :: payload

record ResponseFrame =
  CID :: string
  Type :: string
  Content :: payload

text \<open>
  The struct \<open>Ressource\<close>. The hub reads and writes \<open>ContainerID\<close>, \<open>Event\<close> and
  \<open>Receivers\<close>. \<open>Streamer\<close> and \<open>Quitted\<close> record what \<open>SetStreamer\<close> and \<open>Quit\<close> did.
\<close>

record Ressource =
  ContainerID :: string
  Event :: string
  Receivers :: "client list"
  Streamer :: "container option"
  Quitted :: bool

text \<open>A \<open>Demand\<close>: the resource kind, the container id and the demanding client.\<close>

record Demand =
  dRessource :: string
  dCID :: string
  dClient :: client

text \<open>
  The four channels of \<open>Endpoints\<close>. Each channel is the queue of the values its senders
  are offering, oldest first.
\<close>

record Endpoints =
  Subscribe :: "Demand list"
  Unsubscribe :: "Demand list"
  Leave :: "client list"
  Relay :: "stream_Set list"

text \<open>
  The \<open>Hub\<close>. \<open>Ctr\<close> is the inventory lookup \<open>Ctr.ContainerGet\<close> (an external collaborator,
  \<open>None\<close> when the id is unknown). \<open>Ressources\<close> is the Go map from container to the slice of
  \<open>*Ressource\<close>, kept as an association list. \<open>store\<close> holds the Ressource objects and
  \<open>frames\<close> the ResponseFrame objects. \<open>inbox c\<close> is everything sent so far on the \<open>In\<close>
  channel of client \<open>c\<close>. \<open>spawned\<close> lists the goroutines started by
  \<open>go h.HandleRessource(container, r)\<close>. Console output (\<open>fmt.Printf\<close>) is not part of the
  state.
\<close>

record Hub =
  Eps :: Endpoints
  Ctr :: "string \<Rightarrow> container option"
  Ressources :: "(container \<times> res_ref list) list"
  store :: "Ressource list"
  frames :: "ResponseFrame list"
  inbox :: "client \<Rightarrow> frame_ref list"
  spawned :: "(container \<times> res_ref) list"

definition NewHub :: "(string \<Rightarrow> container option) \<Rightarrow> Hub" where
  "NewHub ctr =
     \<lparr>Eps = \<lparr>Subscribe = [], Unsubscribe = [], Leave = [], Relay = []\<rparr>,
      Ctr = ctr, Ressources = [], store = [], frames = [],
      inbox = (\<lambda>_. []), spawned = []\<rparr>"

text \<open>\<open>h.Ressources[c]\<close>: the slice stored under \<open>c\<close>, the nil slice when the key is absent.\<close>

definition reg :: "Hub \<Rightarrow> container \<Rightarrow> res_ref list" where
  "reg h c = (case map_of (Ressources h) c of None \<Rightarrow> [] | Some rs \<Rightarrow> rs)"

text \<open>The zero value \<open>Ressource{}\<close>.\<close>

definition zero_Ressource :: Ressource where
  "zero_Ressource =
     \<lparr>ContainerID = [], Event = [], Receivers = [], Streamer = None, Quitted = False\<rparr>"

text \<open>
  Modelled from the spec: \<open>NewRessource\<close> is not part of the given sources. The spec's
  scenario says that a Subscribe with no existing resource creates one Resource for the
  demand's container id and kind with the demanding client in its receiver list.
\<close>

definition NewRessource :: "string \<Rightarrow> string \<Rightarrow> client \<Rightarrow> Ressource" where
  "NewRessource cid event c =
     \<lparr>ContainerID = cid, Event = event, Receivers = [c], Streamer = None, Quitted = False\<rparr>"

text \<open>
  Modelled from the spec: \<open>Ressource.RemoveClient\<close> is not part of the given sources. The
  spec says the client is removed from the receiver list and that no reference to it
  remains; the other receivers keep their order.
\<close>

definition RemoveClient :: "Ressource \<Rightarrow> client \<Rightarrow> Ressource" where
  "RemoveClient res c = res\<lparr>Receivers := filter (\<lambda>x. x \<noteq> c) (Receivers res)\<rparr>"

text \<open>
  Modelled from the spec: \<open>Ressource.SetStreamer\<close> is not part of the given sources; it
  binds the underlying live stream of the container to the Resource.
\<close>

definition SetStreamer :: "Ressource \<Rightarrow> container \<Rightarrow> Ressource" where
  "SetStreamer res c = res\<lparr>Streamer := Some c\<rparr>"

text \<open>
  Modelled from the spec: \<open>Ressource.Quit\<close> is not part of the given sources; it is
  idempotent and signals the underlying stream to stop.
\<close>

definition Quit :: "Ressource \<Rightarrow> Ressource" where
  "Quit res = res\<lparr>Quitted := True\<rparr>"

subsection \<open>Lookup and subscription\<close>

text \<open>
  \<open>Hub.Ressource(cid, event)\<close>: resolve the container, read its slice, return the first
  entry whose \<open>ContainerID\<close> and \<open>Event\<close> match.
\<close>

definition Hub_Ressource :: "Hub \<Rightarrow> string \<Rightarrow> string \<Rightarrow> res_ref option" where
  "Hub_Ressource h cid event =
     (case Ctr h cid of
        None \<Rightarrow> None
      | Some container \<Rightarrow>
          (case map_of (Ressources h) container of
             None \<Rightarrow> None
           | Some ressources \<Rightarrow>
               find (\<lambda>r. ContainerID (store h ! r) = cid \<and> Event (store h ! r) = event)
                 ressources))"

text \<open>
  \<open>Hub.Subscribe(dem)\<close>: return when the container is unknown; otherwise look the
  Resource up and either append the client to its receivers or create a Resource, append
  it to the container's slice and start its goroutine.
\<close>

definition Hub_Subscribe :: "Hub \<Rightarrow> Demand \<Rightarrow> Hub" where
  "Hub_Subscribe h dem =
     (case Ctr h (dCID dem) of
        None \<Rightarrow> h
      | Some container \<Rightarrow>
          (case Hub_Ressource h (dCID dem) (dRessource dem) of
             None \<Rightarrow>
               (let r = length (store h) in
                h\<lparr>store := store h @ [NewRessource (dCID dem) (dRessource dem) (dClient dem)],
                  Ressources := AList.update container (reg h container @ [r]) (Ressources h),
                  spawned := spawned h @ [(container, r)]\<rparr>)
           | Some res \<Rightarrow>
               h\<lparr>store := (store h)
                    [res := (store h ! res)
                       \<lparr>Receivers := Receivers (store h ! res) @ [dClient dem]\<rparr>]\<rparr>))"

text \<open>
  \<open>Hub.Unsubscribe(dem)\<close>: when the container is known and the Resource exists, the
  loop over the receivers calls \<open>RemoveClient\<close> at the first entry equal to the client and
  returns.
\<close>

definition Hub_Unsubscribe :: "Hub \<Rightarrow> Demand \<Rightarrow> Hub" where
  "Hub_Unsubscribe h dem =
     (case Ctr h (dCID dem) of
        None \<Rightarrow> h
      | Some container \<Rightarrow>
          (case Hub_Ressource h (dCID dem) (dRessource dem) of
             None \<Rightarrow> h
           | Some res \<Rightarrow>
               (if dClient dem \<in> set (Receivers (store h ! res))
                then h\<lparr>store := (store h)[res := RemoveClient (store h ! res) (dClient dem)]\<rparr>
                else h)))"

text \<open>
  \<open>Hub.ClientLeave(c)\<close>: the outer loop ranges over the map, the inner loop over each
  slice; every Resource met gets \<open>RemoveClient(c)\<close>.
\<close>

definition leave_slice :: "client \<Rightarrow> Ressource list \<Rightarrow> res_ref list \<Rightarrow> Ressource list" where
  "leave_slice c st ressources = foldl (\<lambda>st' res. st'[res := RemoveClient (st' ! res) c]) st ressources"

definition Hub_ClientLeave :: "Hub \<Rightarrow> client \<Rightarrow> Hub" where
  "Hub_ClientLeave h c =
     h\<lparr>store := foldl (leave_slice c) (store h) (map snd (Ressources h))\<rparr>"

subsection \<open>Removal of a Resource\<close>

text \<open>\<open>slices.Index\<close>: the index of the first occurrence, or \<open>-1\<close>.\<close>

fun slices_Index :: "'a list \<Rightarrow> 'a \<Rightarrow> int" where
  "slices_Index [] v = - 1"
| "slices_Index (x # xs) v =
     (if x = v then 0
      else (let i = slices_Index xs v in if i = - 1 then - 1 else i + 1))"

text \<open>
  \<open>Hub.RemoveRessource(c, r)\<close> runs in two parts, split where the source takes the lock.
  The first part holds no lock: it tests \<open>len(r.Receivers) == 0\<close>, reads the slice
  \<open>h.Ressources[c]\<close> and computes \<open>rIdx\<close>. It yields the slice and the index when the
  removal is to go ahead.
\<close>

definition RemoveRessource_check :: "Hub \<Rightarrow> container \<Rightarrow> res_ref \<Rightarrow> (res_ref list \<times> nat) option" where
  "RemoveRessource_check h c r =
     (if length (Receivers (store h ! r)) = 0
      then (let ressources = reg h c; rIdx = slices_Index ressources r
            in if rIdx > - 1 then Some (ressources, nat rIdx) else None)
      else None)"

text \<open>
  The second part is the critical section between \<open>h.mutex.Lock()\<close> and
  \<open>h.mutex.Unlock()\<close>. It stores a pointer to a new zero Ressource in slot \<open>rIdx\<close> of the
  current slice (a Go run-time panic when the index is out of range, here \<open>None\<close>) and
  then stores, under \<open>c\<close>, the slice read earlier without its element \<open>rIdx\<close>.
\<close>

definition RemoveRessource_locked :: "Hub \<Rightarrow> container \<Rightarrow> res_ref list \<Rightarrow> nat \<Rightarrow> Hub option" where
  "RemoveRessource_locked h c ressources rIdx =
     (if rIdx < length (reg h c)
      then (let z = length (store h);
                h1 = h\<lparr>store := store h @ [zero_Ressource],
                       Ressources := AList.update c ((reg h c)[rIdx := z]) (Ressources h)\<rparr>
            in Some (h1\<lparr>Ressources :=
                       AList.update c (take rIdx ressources @ drop (rIdx + 1) ressources)
                         (Ressources h1)\<rparr>))
      else None)"

definition Hub_RemoveRessource :: "Hub \<Rightarrow> container \<Rightarrow> res_ref \<Rightarrow> Hub option" where
  "Hub_RemoveRessource h c r =
     (case RemoveRessource_check h c r of
        None \<Rightarrow> Some h
      | Some (ressources, rIdx) \<Rightarrow> RemoveRessource_locked h c ressources rIdx)"

subsection \<open>Fan-out\<close>

text \<open>
  One iteration of the loop of \<open>Hub.HandleRessource\<close> up to \<open>RUnlock\<close>: allocate one
  frame for the sample and send its address on the \<open>In\<close> channel of every receiver, in the
  order of the receiver list.
\<close>

definition send_frame :: "frame_ref \<Rightarrow> (client \<Rightarrow> frame_ref list) \<Rightarrow> client \<Rightarrow> (client \<Rightarrow> frame_ref list)" where
  "send_frame f q c = q(c := q c @ [f])"

definition deliver :: "Hub \<Rightarrow> res_ref \<Rightarrow> stream_Set \<Rightarrow> Hub" where
  "deliver h r smp =
     (let frame = \<lparr>CID = ContainerID (store h ! r), Type = Event (store h ! r),
                   Content = Data smp\<rparr>;
          f = length (frames h)
      in h\<lparr>frames := frames h @ [frame],
           inbox := foldl (send_frame f) (inbox h) (Receivers (store h ! r))\<rparr>)"

text \<open>
  The loop \<open>for set := range r.Data.In\<close> over the samples the stream produces before it
  closes, with the \<open>break\<close> when the receiver list is empty after a round.
\<close>

fun HandleRessource_loop :: "Hub \<Rightarrow> res_ref \<Rightarrow> stream_Set list \<Rightarrow> Hub" where
  "HandleRessource_loop h r [] = h"
| "HandleRessource_loop h r (smp # rest) =
     (let h' = deliver h r smp
      in if length (Receivers (store h' ! r)) = 0 then h'
         else HandleRessource_loop h' r rest)"

text \<open>What follows the loop: \<open>r.Quit()\<close>, then \<open>h.RemoveRessource(container, r)\<close>.\<close>

definition HandleRessource_exit :: "Hub \<Rightarrow> container \<Rightarrow> res_ref \<Rightarrow> Hub option" where
  "HandleRessource_exit h container r =
     Hub_RemoveRessource (h\<lparr>store := (store h)[r := Quit (store h ! r)]\<rparr>) container r"

definition Hub_HandleRessource :: "Hub \<Rightarrow> container \<Rightarrow> res_ref \<Rightarrow> stream_Set list \<Rightarrow> Hub option" where
  "Hub_HandleRessource h container r sets =
     (let h1 = h\<lparr>store := (store h)[r := SetStreamer (store h ! r) container]\<rparr>;
          h2 = HandleRessource_loop h1 r sets
      in HandleRessource_exit h2 container r)"

subsection \<open>The control loop\<close>

text \<open>
  One iteration of \<open>Hub.Run\<close>. The \<open>select\<close> has three cases; the argument names the
  channel an iteration is to receive from. \<open>None\<close> means that no case of the \<open>select\<close> can
  take a value from that channel now: the channel is empty, or no case receives from it.
\<close>

datatype chan = ChSubscribe | ChUnsubscribe | ChLeave | ChRelay

fun Run_select :: "Hub \<Rightarrow> chan \<Rightarrow> Hub option" where
  "Run_select h ChSubscribe =
     (case Subscribe (Eps h) of
        [] \<Rightarrow> None
      | dem # q \<Rightarrow> Some (Hub_Subscribe (h\<lparr>Eps := (Eps h)\<lparr>Subscribe := q\<rparr>\<rparr>) dem))"
| "Run_select h ChUnsubscribe =
     (case Unsubscribe (Eps h) of
        [] \<Rightarrow> None
      | dem # q \<Rightarrow> Some (Hub_Unsubscribe (h\<lparr>Eps := (Eps h)\<lparr>Unsubscribe := q\<rparr>\<rparr>) dem))"
| "Run_select h ChLeave =
     (case Leave (Eps h) of
        [] \<Rightarrow> None
      | client # q \<Rightarrow> Some (Hub_ClientLeave (h\<lparr>Eps := (Eps h)\<lparr>Leave := q\<rparr>\<rparr>) client))"
| "Run_select h ChRelay = None"

text \<open>
  \<open>Hub.Run\<close> never returns. \<open>Hub_Run h sched\<close> is the state after the iterations of a
  finite schedule, \<open>None\<close> when the schedule asks for a receive that cannot happen.
\<close>

fun Hub_Run :: "Hub \<Rightarrow> chan list \<Rightarrow> Hub option" where
  "Hub_Run h [] = Some h"
| "Hub_Run h (ch # sched) =
     (case Run_select h ch of None \<Rightarrow> None | Some h' \<Rightarrow> Hub_Run h' sched)"


subsection \<open>Well-formed hubs\<close>

text \<open>
  The key of a Resource, and the hubs that Go can build: the map has each container once,
  every pointer in a slice points into the store, and no slice holds two Resources with the
  same key.
\<close>

definition res_key :: "Hub \<Rightarrow> res_ref \<Rightarrow> string \<times> string" where
  "res_key h r = (ContainerID (store h ! r), Event (store h ! r))"

definition hub_ok :: "Hub \<Rightarrow> bool" where
  "hub_ok h \<longleftrightarrow>
     distinct (map fst (Ressources h)) \<and>
     (\<forall>rs \<in> set (map snd (Ressources h)).
        (\<forall>r \<in> set rs. r < length (store h)) \<and> distinct (map (res_key h) rs))"


subsection \<open>Concrete hubs\<close>

text \<open>
  An inventory with the containers \<open>c1\<close> and \<open>c2\<close>; a hub in which client 10 receives the
  metrics of \<open>c1\<close>; the same hub after that client has left; that hub after the fan-out
  goroutine has then sent one sample to nobody, left its loop and called \<open>Quit\<close>; and a hub
  with values on offer on two channels.
\<close>

definition inventory_example :: "string \<Rightarrow> container option" where
  "inventory_example cid =
     (if cid = ''c1'' then Some 0 else if cid = ''c2'' then Some 1 else None)"

definition hub_example :: Hub where
  "hub_example =
     \<lparr>Eps = \<lparr>Subscribe = [], Unsubscribe = [], Leave = [], Relay = []\<rparr>,
      Ctr = inventory_example,
      Ressources = [(0, [0])],
      store = [\<lparr>ContainerID = ''c1'', Event = ''metrics'', Receivers = [10],
                Streamer = Some 0, Quitted = False\<rparr>],
      frames = [], inbox = (\<lambda>_. []), spawned = [(0, 0)]\<rparr>"




text \<open>
  A hub with three Resources under two containers; client 10 receives from all three,
  twice from the last one.
\<close>

definition hub_two :: Hub where
  "hub_two =
     \<lparr>Eps = \<lparr>Subscribe = [], Unsubscribe = [], Leave = [], Relay = []\<rparr>,
      Ctr = inventory_example,
      Ressources = [(0, [0, 1]), (1, [2])],
      store = [\<lparr>ContainerID = ''c1'', Event = ''metrics'', Receivers = [10, 11],
                Streamer = Some 0, Quitted = False\<rparr>,
               \<lparr>ContainerID = ''c1'', Event = ''logs'', Receivers = [12, 10],
                Streamer = Some 0, Quitted = False\<rparr>,
               \<lparr>ContainerID = ''c2'', Event = ''metrics'', Receivers = [10, 13, 10],
                Streamer = Some 1, Quitted = False\<rparr>],
      frames = [], inbox = (\<lambda>_. []), spawned = [(0, 0), (0, 1), (1, 2)]\<rparr>"


definition demand_unknown :: Demand where
  "demand_unknown = \<lparr>dRessource = ''metrics'', dCID = ''nope'', dClient = 12\<rparr>"

text \<open>
  The scenario of the specification: on a new hub, clients 1 and 2 ask for the metrics of
  \<open>c1\<close>, client 1 unsubscribes and client 2 leaves.
\<close>

definition hub_scenario :: Hub where
  "hub_scenario =
     (NewHub inventory_example)
       \<lparr>Eps := \<lparr>Subscribe = [\<lparr>dRessource = ''metrics'', dCID = ''c1'', dClient = 1\<rparr>,
                             \<lparr>dRessource = ''metrics'', dCID = ''c1'', dClient = 2\<rparr>],
                Unsubscribe = [\<lparr>dRessource = ''metrics'', dCID = ''c1'', dClient = 1\<rparr>],
                Leave = [2], Relay = []\<rparr>\<rparr>"

text \<open>Two samples of a stream.\<close>

definition sample_a :: stream_Set where
  "sample_a = \<lparr>Data = ''a''\<rparr>"

definition sample_b :: stream_Set where
  "sample_b = \<lparr>Data = ''b''\<rparr>"

section \<open>The controller (package controller)\<close>

subsection \<open>The event handler\<close>

text \<open>
  An engine event (\<open>events.Message\<close>) with the three fields the handler reads. The
  constant \<open>events.ContainerEventType\<close> of the engine's API is the string \<open>container\<close>.
\<close>

record Message =
  evType :: string
  evStatus :: string
  evID :: string

definition ContainerEventType :: string where
  "ContainerEventType = ''container''"

text \<open>
  What the handler does to the outside: calls of the inventory
  (\<open>Containers.Add\<close>, \<open>Stop\<close>, \<open>Remove\<close>), records written through the logger
  \<open>logrus\<close> at three levels, lines printed on standard output by \<open>fmt.Println\<close>, and
  the refresh of the host summary (\<open>ctr.UpdateAbout()\<close>, whose result is dropped).
\<close>

datatype inv_call = Add string | Stop string | Remove string

datatype effect =
    Call inv_call
  | LogInfo string
  | LogWarn string
  | LogError string
  | Println string
  | UpdateAbout

text \<open>
  The inventory is an external collaborator: \<open>exec s call\<close> gives its next state and the
  error the call returns (\<open>None\<close> for \<open>nil\<close>).
\<close>

type_synonym 's inventory = "'s \<Rightarrow> inv_call \<Rightarrow> 's \<times> string option"

definition logEventExec :: "string option \<Rightarrow> Message \<Rightarrow> effect list" where
  "logEventExec err e =
     (case err of
        Some msg \<Rightarrow>
          [LogError (''- CONTROLLER - exec of event '' @ evStatus e @ '' failed: '' @ msg @ [CHR 0x0A])]
      | None \<Rightarrow>
          [LogInfo (''- CONTROLLER - exec of event '' @ evStatus e @ '' successful'' @ [CHR 0x0A])])"

definition ContainerStart :: "'s inventory \<Rightarrow> 's \<Rightarrow> Message \<Rightarrow> 's \<times> effect list" where
  "ContainerStart exec s e =
     (let (s', err) = exec s (Add (evID e)) in (s', Call (Add (evID e)) # logEventExec err e))"

definition ContainerStop :: "'s inventory \<Rightarrow> 's \<Rightarrow> Message \<Rightarrow> 's \<times> effect list" where
  "ContainerStop exec s e =
     (let (s', err) = exec s (Stop (evID e)) in (s', Call (Stop (evID e)) # logEventExec err e))"

definition ContainerDestroy :: "'s inventory \<Rightarrow> 's \<Rightarrow> Message \<Rightarrow> 's \<times> effect list" where
  "ContainerDestroy exec s e =
     (let (s', err) = exec s (Remove (evID e))
      in (s', Call (Remove (evID e)) # logEventExec err e))"

text \<open>
  One iteration of the loop of \<open>Controller.HandleEvents\<close>: the print, the early
  \<open>continue\<close> for an event that is not of the container type, and the \<open>switch\<close> on the
  status.
\<close>

definition HandleEvents_iter :: "'s inventory \<Rightarrow> 's \<Rightarrow> Message \<Rightarrow> 's \<times> effect list" where
  "HandleEvents_iter exec s event =
     (let (s', out) =
        (if evType event \<noteq> ContainerEventType then (s, [])
         else if evStatus event = ''start'' then ContainerStart exec s event
         else if evStatus event = ''stop'' then ContainerStop exec s event
         else if evStatus event = ''destroy'' then ContainerDestroy exec s event
         else (s, [LogWarn (''- CONTROLLER - event '' @ evStatus event @
                            '' is unkown or not implemented'' @ [CHR 0x0A])]))
      in (s', Println ''handling event'' # out))"


fun HandleEvents_loop :: "'s inventory \<Rightarrow> 's \<Rightarrow> Message list \<Rightarrow> 's \<times> effect list" where
  "HandleEvents_loop exec s [] = (s, [])"
| "HandleEvents_loop exec s (event # rest) =
     (let (s1, out1) = HandleEvents_iter exec s event;
          (s2, out2) = HandleEvents_loop exec s1 rest
      in (s2, out1 @ out2))"

text \<open>
  \<open>Controller.HandleEvents\<close>: \<open>get\<close> is the error of \<open>Events.Get()\<close>, \<open>events\<close> the
  events received before the channel closes.
\<close>

definition HandleEvents :: "'s inventory \<Rightarrow> string option \<Rightarrow> 's \<Rightarrow> Message list \<Rightarrow> 's \<times> effect list" where
  "HandleEvents exec get s events =
     (case get of
        Some msg \<Rightarrow>
          (s, [LogError (''- CONTROLLER - failed to run event handler: '' @ msg @ [CHR 0x0A])])
      | None \<Rightarrow>
          (let (s', out) = HandleEvents_loop exec s events
           in (s', LogInfo ''- CONTROLLER - running event handler...'' # out)))"

text \<open>The inventory calls and the logger records among the effects.\<close>

fun inv_calls :: "effect list \<Rightarrow> inv_call list" where
  "inv_calls [] = []"
| "inv_calls (Call c # es) = c # inv_calls es"
| "inv_calls (_ # es) = inv_calls es"





subsection \<open>Initialisation\<close>

text \<open>
  The results of the initialisers that startup calls, \<open>None\<close> for \<open>nil\<close>: the event
  source, the image store, the container store and the persistence sink.
\<close>

record init_results =
  Events_Init :: "string option"
  Images_Init :: "string option"
  Containers_Init :: "string option"
  DB_Init :: "string option"

text \<open>What startup does to the outside: goroutines started, logger records, the router.\<close>

datatype startup =
    GoHandleEvents
  | GoFeedWriter
  | GoHubRun
  | RouterRun
  | Info string
  | Errorf string

text \<open>\<open>Controller.Init\<close>: the returned error and what was done before returning.\<close>

definition Controller_Init :: "init_results \<Rightarrow> string option \<times> startup list" where
  "Controller_Init env =
     (case Events_Init env of
        Some err \<Rightarrow> (Some err, [Info ''- CONTROLLER - starting''])
      | None \<Rightarrow>
          (case Images_Init env of
             Some err \<Rightarrow>
               (Some err,
                [Info ''- CONTROLLER - starting'', GoHandleEvents,
                 Errorf (''- STORAGE - (images) failed to init: '' @ err @ [CHR 0x0A])])
           | None \<Rightarrow>
               (case Containers_Init env of
                  Some err \<Rightarrow>
                    (Some err,
                     [Info ''- CONTROLLER - starting'', GoHandleEvents,
                      Errorf (''- STORAGE - (containers) failed to init: '' @ err @ [CHR 0x0A])])
                | None \<Rightarrow>
                    (case DB_Init env of
                       Some err \<Rightarrow>
                         (Some err,
                          [Info ''- CONTROLLER - starting'', GoHandleEvents, GoFeedWriter,
                           Errorf (''- STORAGE - (db) failed to init: '' @ err @ [CHR 0x0A])])
                     | None \<Rightarrow>
                         (None,
                          [Info ''- CONTROLLER - starting'', GoHandleEvents,
                           GoFeedWriter])))))"

text \<open>\<open>Storage.Init\<close>: as above for the two stores; after \<open>DB.Init\<close> it returns \<open>nil\<close>.\<close>

definition Storage_Init :: "init_results \<Rightarrow> string option \<times> startup list" where
  "Storage_Init env =
     (case Images_Init env of
        Some err \<Rightarrow> (Some err, [Errorf (''- STORAGE - (images) failed to init: '' @ err @ [CHR 0x0A])])
      | None \<Rightarrow>
          (case Containers_Init env of
             Some err \<Rightarrow>
               (Some err, [Errorf (''- STORAGE - (containers) failed to init: '' @ err @ [CHR 0x0A])])
           | None \<Rightarrow>
               (case DB_Init env of
                  Some err \<Rightarrow>
                    (None, [GoFeedWriter, Errorf (''- STORAGE - (db) failed to init: '' @ err @ [CHR 0x0A])])
                | None \<Rightarrow> (None, [GoFeedWriter]))))"

text \<open>
  \<open>API.Run\<close>: call \<open>Controller.Init\<close> and drop what it returns, start the hub's loop, run
  the router.
\<close>

definition API_Run :: "init_results \<Rightarrow> startup list" where
  "API_Run env = snd (Controller_Init env) @ [GoHubRun, RouterRun]"

definition db_down :: init_results where
  "db_down = \<lparr>Events_Init = None, Images_Init = None, Containers_Init = None,
              DB_Init = Some ''connection refused''\<rparr>"

section \<open>The HTTP and WebSocket handlers (package api)\<close>

text \<open>
  A \<open>*dock.Container\<close> is \<open>nil\<close> or the address of a Container object. \<open>next_addr\<close> is the
  allocation frontier when the lookup has returned: every object allocated so far, by the
  lookup too, has an address below it, and \<open>&dock.Container{}\<close> allocates at the frontier. (A Container has fields, such as
  \<open>Logs\<close>, so two allocations never share an address.) \<open>Controller_Container\<close> is the
  lookup \<open>api.Controller.Container(id)\<close>.
\<close>

datatype ptr = Nil | Addr nat

record api_world =
  next_addr :: nat
  Controller_Container :: "string \<Rightarrow> ptr"

definition new_Container :: "api_world \<Rightarrow> ptr \<times> api_world" where
  "new_Container w = (Addr (next_addr w), w\<lparr>next_addr := Suc (next_addr w)\<rparr>)"

text \<open>A pointer a lookup can return: \<open>nil\<close> or the address of an object that exists.\<close>

fun live :: "api_world \<Rightarrow> ptr \<Rightarrow> bool" where
  "live w Nil = True"
| "live w (Addr a) = (a < next_addr w)"

text \<open>
  What a handler writes: an error body with its status code, a data body, a JSON message
  on the WebSocket, the closing of the connection, the send on \<open>done\<close>, or a run-time
  panic.
\<close>

datatype response =
    HttpErr nat string
  | HttpData nat string string
  | WriteJSON string payload
  | ConClose
  | DoneSend
  | Panic

text \<open>
  The methods of a Container are external: \<open>marshal p\<close> is the result of \<open>MarshalJSON\<close>
  (\<open>None\<close> for a panic, \<open>Inl\<close> for an error), \<open>stream p\<close> the samples or entries of the
  stream of the container, each with the error \<open>WriteJSON\<close> returns for it (\<open>None\<close> for a
  panic when the stream is opened).
\<close>

type_synonym marshal = "ptr \<Rightarrow> (string + string) option"
type_synonym streams = "ptr \<Rightarrow> (payload \<times> string option) list option"

text \<open>\<open>API.Container\<close>.\<close>

definition API_Container :: "api_world \<Rightarrow> marshal \<Rightarrow> string \<Rightarrow> response list" where
  "API_Container w marshal cid =
     (let container = Controller_Container w cid;
          (blank, w') = new_Container w
      in if container = blank then [HttpErr 404 ''container not found'']
         else (case marshal container of
                 None \<Rightarrow> [Panic]
               | Some (Inl err) \<Rightarrow> [HttpErr 500 err]
               | Some (Inr contJson) \<Rightarrow>
                   [HttpData 200 ''application/json; charset=utf-8'' contJson]))"

text \<open>
  The loop of \<open>metricsWS\<close>: \<open>err\<close> is tested before the write and set by it.
\<close>

fun metrics_loop :: "string option \<Rightarrow> (payload \<times> string option) list \<Rightarrow> response list" where
  "metrics_loop err [] = []"
| "metrics_loop err ((smp, werr) # rest) =
     (case err of
        Some e \<Rightarrow> [ConClose]
      | None \<Rightarrow> WriteJSON ''metric_set'' smp # metrics_loop werr rest)"

definition API_metricsWS :: "api_world \<Rightarrow> streams \<Rightarrow> string option \<Rightarrow> string \<Rightarrow> response list" where
  "API_metricsWS w stream upgrade cid =
     (case upgrade of
        Some err \<Rightarrow> [HttpErr 500 err]
      | None \<Rightarrow>
          (let container = Controller_Container w cid;
               (blank, w') = new_Container w
           in if container = blank then [HttpErr 404 ''container not found'']
              else (case stream container of
                      None \<Rightarrow> [Panic]
                    | Some metrics \<Rightarrow> metrics_loop None metrics)))"

text \<open>The loop of \<open>logsWS\<close> and what follows it.\<close>

fun logs_loop :: "(payload \<times> string option) list \<Rightarrow> response list" where
  "logs_loop [] = [DoneSend, ConClose]"
| "logs_loop ((entry, werr) # rest) =
     WriteJSON ''entry'' entry #
       (case werr of Some e \<Rightarrow> [ConClose] | None \<Rightarrow> logs_loop rest)"

definition API_logsWS :: "api_world \<Rightarrow> streams \<Rightarrow> string option \<Rightarrow> string \<Rightarrow> response list" where
  "API_logsWS w stream upgrade cid =
     (case upgrade of
        Some err \<Rightarrow> [HttpErr 500 err]
      | None \<Rightarrow>
          (let container = Controller_Container w cid;
               (blank, w') = new_Container w
           in if container = blank then [HttpErr 404 ''container not found'']
              else (case stream container of
                      None \<Rightarrow> [Panic]
                    | Some entries \<Rightarrow> logs_loop entries)))"

text \<open>Writes that carry the status 404.\<close>

fun is_404 :: "response \<Rightarrow> bool" where
  "is_404 (HttpErr code _) = (code = 404)"
| "is_404 (HttpData code _ _) = (code = 404)"
| "is_404 _ = False"

text \<open>A world with one container, \<open>c1\<close>, at address 0; every other id looks up \<open>nil\<close>.\<close>

definition world_example :: api_world where
  "world_example =
     \<lparr>next_addr = 1, Controller_Container = (\<lambda>cid. if cid = ''c1'' then Addr 0 else Nil)\<rparr>"

definition marshal_example :: marshal where
  "marshal_example p = (case p of Nil \<Rightarrow> None | Addr a \<Rightarrow> Some (Inr ''{}''))"

definition stream_example :: streams where
  "stream_example p = (case p of Nil \<Rightarrow> None | Addr a \<Rightarrow> Some [(''s1'', None), (''s2'', None)])"

section \<open>Theorems about the hub\<close>

subsection \<open>The registry\<close>


lemma reg_cases: "reg h c = [] \<or> reg h c \<in> set (map snd (Ressources h))"
  by (auto simp: reg_def split: option.splits dest!: map_of_SomeD intro: rev_image_eqI)

lemma hub_ok_reg_valid: "hub_ok h \<Longrightarrow> r \<in> set (reg h c) \<Longrightarrow> r < length (store h)"
  using reg_cases [of h c] by (auto simp: hub_ok_def)

lemma hub_ok_reg_distinct: "hub_ok h \<Longrightarrow> distinct (map (res_key h) (reg h c))"
  using reg_cases [of h c] by (auto simp: hub_ok_def)




lemma snd_update_subset:
  "set (map snd (AList.update k v al)) \<subseteq> insert v (set (map snd al))"
  by (induction al) auto

lemma reg_update: "reg (h\<lparr>Ressources := AList.update c v (Ressources h)\<rparr>) c' = (if c' = c then v else reg h c')"
  by (simp add: reg_def update_conv')


lemma Hub_Ressource_None:
  "Ctr h cid = Some c \<Longrightarrow> Hub_Ressource h cid ev = None \<Longrightarrow>
     (cid, ev) \<notin> set (map (res_key h) (reg h c))"
  by (auto simp: Hub_Ressource_def reg_def res_key_def find_None_iff split: option.splits)

lemma res_key_receivers_update [simp]:
  "res_key (h\<lparr>store := (store h)[res := (store h ! res)\<lparr>Receivers := x\<rparr>]\<rparr>) r = res_key h r"
  by (cases "res < length (store h)"; cases "r = res") (simp_all add: res_key_def list_update_beyond)

lemma res_key_store_append:
  "r < length (store h) \<Longrightarrow> res_key (h\<lparr>store := store h @ xs\<rparr>) r = res_key h r"
  by (simp add: res_key_def nth_append)

lemma hub_ok_same_keys:
  assumes "hub_ok h" "Ressources h' = Ressources h" "length (store h') = length (store h)"
    and "\<And>r. res_key h' r = res_key h r"
  shows "hub_ok h'"
proof -
  have "map (res_key h') = map (res_key h)" by (rule ext) (simp add: assms(4))
  with assms(1-3) show ?thesis by (simp add: hub_ok_def)
qed

lemma res_key_store_update:
  "ContainerID x = ContainerID (store h ! r) \<Longrightarrow> Event x = Event (store h ! r) \<Longrightarrow>
     res_key (h\<lparr>store := (store h)[r := x]\<rparr>) r' = res_key h r'"
  by (cases "r < length (store h)"; cases "r' = r") (simp_all add: res_key_def list_update_beyond)

lemma hub_ok_store_update:
  assumes "hub_ok h" "ContainerID x = ContainerID (store h ! r)" "Event x = Event (store h ! r)"
  shows "hub_ok (h\<lparr>store := (store h)[r := x]\<rparr>)"
  using assms(1)
proof (rule hub_ok_same_keys)
  show "res_key (h\<lparr>store := (store h)[r := x]\<rparr>) r' = res_key h r'" for r'
    using assms(2,3) by (rule res_key_store_update)
qed simp_all

lemma hub_ok_Eps: "hub_ok (h\<lparr>Eps := e\<rparr>) = hub_ok h"
proof -
  have "res_key (h\<lparr>Eps := e\<rparr>) = res_key h" by (rule ext) (simp add: res_key_def)
  then show ?thesis by (simp add: hub_ok_def)
qed

lemma hub_ok_NewHub: "hub_ok (NewHub ctr)"
  by (simp add: hub_ok_def NewHub_def)

subsection \<open>Subscribe\<close>

lemma hub_ok_Subscribe: 
  assumes ok: "hub_ok h"
  shows "hub_ok (Hub_Subscribe h dem)"
proof (cases "Ctr h (dCID dem)")
  case None
  with ok show ?thesis by (simp add: Hub_Subscribe_def)
next
  case (Some c)
  show ?thesis
  proof (cases "Hub_Ressource h (dCID dem) (dRessource dem)")
    case found: (Some res)
    have "map (res_key (h\<lparr>store := (store h)[res := (store h ! res)\<lparr>Receivers := Receivers (store h ! res) @ [dClient dem]\<rparr>]\<rparr>)) = map (res_key h)"
      by (rule ext) simp
    with ok Some found show ?thesis
      by (simp add: Hub_Subscribe_def hub_ok_def)
  next
    case None
    let ?r = "length (store h)"
    let ?new = "NewRessource (dCID dem) (dRessource dem) (dClient dem)"
    let ?h' = "h\<lparr>store := store h @ [?new],
                  Ressources := AList.update c (reg h c @ [?r]) (Ressources h),
                  spawned := spawned h @ [(c, ?r)]\<rparr>"
    have eq: "Hub_Subscribe h dem = ?h'"
      using Some None by (simp add: Hub_Subscribe_def Let_def)
    have keys: "\<And>r. r < ?r \<Longrightarrow> res_key ?h' r = res_key h r"
      by (simp add: res_key_def nth_append)
    have newkey: "res_key ?h' ?r = (dCID dem, dRessource dem)"
      by (simp add: res_key_def NewRessource_def)
    have fresh: "(dCID dem, dRessource dem) \<notin> set (map (res_key h) (reg h c))"
      using Some None by (rule Hub_Ressource_None)
    have d1: "distinct (map fst (Ressources ?h'))"
      using ok by (simp add: hub_ok_def distinct_update)
    have old: "\<And>rs. rs \<in> set (map snd (Ressources h)) \<or> rs = reg h c \<Longrightarrow>
        (\<forall>r \<in> set rs. r < ?r) \<and> distinct (map (res_key h) rs)"
      using ok hub_ok_reg_valid [OF ok, of _ c] hub_ok_reg_distinct [OF ok, of c]
      by (auto simp: hub_ok_def)
    have d2: "(\<forall>r \<in> set rs. r < length (store ?h')) \<and> distinct (map (res_key ?h') rs)"
      if "rs \<in> set (map snd (Ressources ?h'))" for rs
    proof -
      from that snd_update_subset [of c "reg h c @ [?r]" "Ressources h"]
      consider "rs = reg h c @ [?r]" | "rs \<in> set (map snd (Ressources h))"
        by auto
      then show ?thesis
      proof cases
        case 1
        have v: "\<forall>r \<in> set (reg h c). r < ?r" and d: "distinct (map (res_key h) (reg h c))"
          using old [of "reg h c"] by auto
        have m: "map (res_key ?h') (reg h c) = map (res_key h) (reg h c)"
          using v keys by (intro map_cong) auto
        have "distinct (map (res_key ?h') (reg h c @ [?r]))"
          unfolding map_append m using d fresh newkey by simp
        moreover have "\<forall>r \<in> set (reg h c @ [?r]). r < length (store ?h')"
          using v by auto
        ultimately show ?thesis unfolding 1 by blast
      next
        case 2
        have v: "\<forall>r \<in> set rs. r < ?r" and d: "distinct (map (res_key h) rs)"
          using old [of rs] 2 by auto
        have m: "map (res_key ?h') rs = map (res_key h) rs"
          using v keys by (intro map_cong) auto
        have "\<forall>r \<in> set rs. r < length (store ?h')"
          using v by auto
        then show ?thesis unfolding m using d by blast
      qed
    qed
    show ?thesis unfolding eq hub_ok_def using d1 d2 by blast
  qed
qed




text \<open>
  C6. A Subscribe demand whose container id the inventory does not know leaves the hub
  exactly as it was: no frame reaches any client, no Resource is created, no goroutine is
  started and the registry is unchanged.
\<close>

theorem Subscribe_unknown_container_noop:
  "Ctr h (dCID dem) = None \<Longrightarrow> Hub_Subscribe h dem = h"
  by (simp add: Hub_Subscribe_def)

theorem Subscribe_unknown_container_noop_witness:
  "Ctr hub_example (dCID demand_unknown) = None \<and>
   Hub_Subscribe hub_example demand_unknown = hub_example"
proof -
  have unknown: "Ctr hub_example (dCID demand_unknown) = None"
    by (simp add: hub_example_def demand_unknown_def inventory_example_def)
  from Subscribe_unknown_container_noop [OF unknown] unknown show ?thesis by blast
qed

subsection \<open>Unsubscribe and ClientLeave\<close>

lemma RemoveClient_idem: "RemoveClient (RemoveClient x c) c = RemoveClient x c"
  by (simp add: RemoveClient_def)

lemma leave_slice_length [simp]: "length (leave_slice c st rs) = length st"
  unfolding leave_slice_def by (induction rs arbitrary: st) simp_all

lemma leave_slice_nth:
  "leave_slice c st rs ! r =
     (if r \<in> set rs \<and> r < length st then RemoveClient (st ! r) c else st ! r)"
proof (induction rs arbitrary: st)
  case Nil
  then show ?case by (simp add: leave_slice_def)
next
  case (Cons a rs)
  have step: "leave_slice c st (a # rs) = leave_slice c (st[a := RemoveClient (st ! a) c]) rs"
    by (simp add: leave_slice_def)
  show ?case
    unfolding step Cons.IH
    by (cases "a = r") (auto simp: RemoveClient_idem list_update_beyond)
qed

lemma leave_all_length [simp]: "length (foldl (leave_slice c) st rss) = length st"
  by (induction rss arbitrary: st) simp_all

lemma leave_all_nth:
  "foldl (leave_slice c) st rss ! r =
     (if r \<in> \<Union> (set ` set rss) \<and> r < length st then RemoveClient (st ! r) c else st ! r)"
proof (induction rss arbitrary: st)
  case Nil
  then show ?case by simp
next
  case (Cons rs rss)
  show ?case
    unfolding foldl_Cons Cons.IH leave_slice_nth
    by (auto simp: RemoveClient_idem)
qed

lemma hub_ok_Unsubscribe:
  assumes ok: "hub_ok h"
  shows "hub_ok (Hub_Unsubscribe h dem)"
proof -
  have "hub_ok (h\<lparr>store := (store h)[res := RemoveClient (store h ! res) (dClient dem)]\<rparr>)" for res
    using ok by (rule hub_ok_store_update) (simp_all add: RemoveClient_def)
  with ok show ?thesis
    by (simp add: Hub_Unsubscribe_def split: option.splits)
qed

lemma hub_ok_ClientLeave: "hub_ok h \<Longrightarrow> hub_ok (Hub_ClientLeave h c)"
proof (rule hub_ok_same_keys [of h])
  show "res_key (Hub_ClientLeave h c) r = res_key h r" for r
    by (simp add: res_key_def Hub_ClientLeave_def leave_all_nth RemoveClient_def)
qed (simp_all add: Hub_ClientLeave_def)

text \<open>
  C7. In a well-formed hub, \<open>ClientLeave(c)\<close> leaves the registry and the number of
  Resource objects as they were. For every Resource of every container in the registry,
  \<open>c\<close> is no longer among the receivers, the receiver list is the old one without \<open>c\<close>
  (so every other client keeps each of its entries, in order), and the container id and
  kind are unchanged. A Resource object that is in no slice is untouched.
\<close>

theorem ClientLeave_removes_everywhere:
  assumes ok: "hub_ok h"
  shows "Ressources (Hub_ClientLeave h c) = Ressources h \<and>
         length (store (Hub_ClientLeave h c)) = length (store h) \<and>
         (\<forall>rs \<in> set (map snd (Ressources h)). \<forall>r \<in> set rs.
            c \<notin> set (Receivers (store (Hub_ClientLeave h c) ! r)) \<and>
            Receivers (store (Hub_ClientLeave h c) ! r) =
              filter (\<lambda>x. x \<noteq> c) (Receivers (store h ! r)) \<and>
            (\<forall>c'. c' \<noteq> c \<longrightarrow>
               filter (\<lambda>x. x = c') (Receivers (store (Hub_ClientLeave h c) ! r)) =
               filter (\<lambda>x. x = c') (Receivers (store h ! r))) \<and>
            ContainerID (store (Hub_ClientLeave h c) ! r) = ContainerID (store h ! r) \<and>
            Event (store (Hub_ClientLeave h c) ! r) = Event (store h ! r)) \<and>
         (\<forall>r. r \<notin> \<Union> (set ` set (map snd (Ressources h))) \<longrightarrow>
            store (Hub_ClientLeave h c) ! r = store h ! r) \<and>
         hub_ok (Hub_ClientLeave h c)"
proof -
  let ?h' = "Hub_ClientLeave h c"
  have nth: "store ?h' ! r =
      (if r \<in> \<Union> (set ` set (map snd (Ressources h))) \<and> r < length (store h)
       then RemoveClient (store h ! r) c else store h ! r)" for r
    by (simp add: Hub_ClientLeave_def leave_all_nth)
  have reg_eq: "Ressources ?h' = Ressources h" and len: "length (store ?h') = length (store h)"
    by (simp_all add: Hub_ClientLeave_def)
  have inreg: "store ?h' ! r = RemoveClient (store h ! r) c"
    if "rs \<in> set (map snd (Ressources h))" "r \<in> set rs" for rs r
  proof -
    from ok that have "r < length (store h)" by (auto simp: hub_ok_def)
    with that show ?thesis unfolding nth by auto
  qed
  have keys: "res_key ?h' r = res_key h r" for r
    unfolding res_key_def nth by (simp add: RemoveClient_def)
  have "map (res_key ?h') = map (res_key h)" by (rule ext) (simp add: keys)
  with ok have ok': "hub_ok ?h'" by (simp add: hub_ok_def reg_eq len)
  have filt: "filter (\<lambda>x. x = c') (filter (\<lambda>x. x \<noteq> c) xs) = filter (\<lambda>x. x = c') xs"
    if "c' \<noteq> c" for c' and xs :: "client list"
    using that by (induction xs) auto
  show ?thesis
    using reg_eq len ok' inreg nth filt by (auto simp: RemoveClient_def)
qed

theorem ClientLeave_removes_everywhere_witness:
  "hub_ok hub_two \<and>
   Receivers (store (Hub_ClientLeave hub_two 10) ! 0) = [11] \<and>
   Receivers (store (Hub_ClientLeave hub_two 10) ! 1) = [12] \<and>
   Receivers (store (Hub_ClientLeave hub_two 10) ! 2) = [13] \<and>
   Ressources (Hub_ClientLeave hub_two 10) = [(0, [0, 1]), (1, [2])]"
proof -
  have ok: "hub_ok hub_two"
    by (simp add: hub_ok_def hub_two_def res_key_def)
  have m: "[0, 1] \<in> set (map snd (Ressources hub_two))" "[2] \<in> set (map snd (Ressources hub_two))"
    by (simp_all add: hub_two_def)
  have s: "Receivers (store hub_two ! 0) = [10, 11]" "Receivers (store hub_two ! 1) = [12, 10]"
    "Receivers (store hub_two ! 2) = [10, 13, 10]" "Ressources hub_two = [(0, [0, 1]), (1, [2])]"
    by (simp_all add: hub_two_def)
  note t = ClientLeave_removes_everywhere [OF ok, of 10]
  from t m(1) have a: "Receivers (store (Hub_ClientLeave hub_two 10) ! 0) =
      filter (\<lambda>x. x \<noteq> 10) (Receivers (store hub_two ! 0))"
    by (elim conjE) (drule bspec [where x = "[0, 1]"], assumption, simp)
  from t m(1) have b: "Receivers (store (Hub_ClientLeave hub_two 10) ! 1) =
      filter (\<lambda>x. x \<noteq> 10) (Receivers (store hub_two ! 1))"
    by (elim conjE) (drule bspec [where x = "[0, 1]"], assumption, simp)
  from t m(2) have c: "Receivers (store (Hub_ClientLeave hub_two 10) ! 2) =
      filter (\<lambda>x. x \<noteq> 10) (Receivers (store hub_two ! 2))"
    by (elim conjE) (drule bspec [where x = "[2]"], assumption, simp)
  from t have d: "Ressources (Hub_ClientLeave hub_two 10) = Ressources hub_two" by simp
  from ok a b c d show ?thesis unfolding s by simp
qed

subsection \<open>RemoveRessource\<close>

lemma slices_Index_ge: "- 1 \<le> slices_Index xs v"
  by (induction xs) (auto simp: Let_def)

lemma slices_Index_notin: "v \<notin> set xs \<Longrightarrow> slices_Index xs v = - 1"
  by (induction xs) (auto simp: Let_def)

lemma slices_Index_in:
  "v \<in> set xs \<Longrightarrow>
     0 \<le> slices_Index xs v \<and> nat (slices_Index xs v) < length xs \<and>
     take (nat (slices_Index xs v)) xs @ drop (nat (slices_Index xs v) + 1) xs = remove1 v xs"
proof (induction xs)
  case Nil
  then show ?case by simp
next
  case (Cons x xs)
  show ?case
  proof (cases "x = v")
    case True
    then show ?thesis by simp
  next
    case False
    with Cons.prems have mem: "v \<in> set xs" by simp
    note ih = Cons.IH [OF mem]
    from ih have ne: "slices_Index xs v \<noteq> - 1" by linarith
    have idx: "slices_Index (x # xs) v = slices_Index xs v + 1"
      using False ne by (simp add: Let_def)
    have n: "nat (slices_Index xs v + 1) = Suc (nat (slices_Index xs v))"
      using ih by linarith
    show ?thesis unfolding idx n using ih False by simp
  qed
qed

lemma RemoveRessource_check_Some:
  "Receivers (store h ! r) = [] \<Longrightarrow> r \<in> set (reg h c) \<Longrightarrow>
     RemoveRessource_check h c r = Some (reg h c, nat (slices_Index (reg h c) r))"
  using slices_Index_in [of r "reg h c"] by (simp add: RemoveRessource_check_def Let_def)

lemma RemoveRessource_check_None:
  "Receivers (store h ! r) \<noteq> [] \<or> r \<notin> set (reg h c) \<Longrightarrow> RemoveRessource_check h c r = None"
  using slices_Index_notin [of r "reg h c"] by (auto simp: RemoveRessource_check_def Let_def)

lemma Hub_RemoveRessource_eq:
  "Hub_RemoveRessource h c r =
     Some (if Receivers (store h ! r) = [] \<and> r \<in> set (reg h c)
           then h\<lparr>store := store h @ [zero_Ressource],
                  Ressources := AList.update c (remove1 r (reg h c)) (Ressources h)\<rparr>
           else h)"
proof (cases "Receivers (store h ! r) = [] \<and> r \<in> set (reg h c)")
  case True
  then have chk: "RemoveRessource_check h c r = Some (reg h c, nat (slices_Index (reg h c) r))"
    by (simp add: RemoveRessource_check_Some)
  from True slices_Index_in [of r "reg h c"]
  have lt: "nat (slices_Index (reg h c) r) < length (reg h c)"
    and rm: "take (nat (slices_Index (reg h c) r)) (reg h c) @
             drop (nat (slices_Index (reg h c) r) + 1) (reg h c) = remove1 r (reg h c)"
    by auto
  show ?thesis
    using True lt rm by (simp add: Hub_RemoveRessource_def chk RemoveRessource_locked_def Let_def)
next
  case False
  then have "RemoveRessource_check h c r = None"
    by (intro RemoveRessource_check_None) auto
  with False show ?thesis by (auto simp: Hub_RemoveRessource_def)
qed

lemma hub_ok_remove:
  assumes ok: "hub_ok h"
  shows "hub_ok (h\<lparr>store := store h @ [zero_Ressource],
                  Ressources := AList.update c (remove1 r (reg h c)) (Ressources h)\<rparr>)"
    (is "hub_ok ?h'")
proof -
  have keys: "\<And>x. x < length (store h) \<Longrightarrow> res_key ?h' x = res_key h x"
    by (simp add: res_key_def nth_append)
  have d1: "distinct (map fst (Ressources ?h'))"
    using ok by (simp add: hub_ok_def distinct_update)
  have old: "(\<forall>x \<in> set rs. x < length (store h)) \<and> distinct (map (res_key h) rs)"
    if "rs \<in> set (map snd (Ressources h)) \<or> rs = reg h c" for rs
    using that ok hub_ok_reg_valid [OF ok, of _ c] hub_ok_reg_distinct [OF ok, of c]
    by (auto simp: hub_ok_def)
  have sub: "(\<forall>x \<in> set rs. x < length (store h)) \<and> distinct (map (res_key h) rs)"
    if "rs \<in> set (map snd (Ressources ?h'))" for rs
  proof -
    from that snd_update_subset [of c "remove1 r (reg h c)" "Ressources h"]
    consider "rs = remove1 r (reg h c)" | "rs \<in> set (map snd (Ressources h))"
      by auto
    then show ?thesis
    proof cases
      case 1
      from old [of "reg h c"] have v: "\<forall>x \<in> set (reg h c). x < length (store h)"
        and d: "distinct (map (res_key h) (reg h c))" by auto
      from d have "distinct (map (res_key h) (remove1 r (reg h c)))"
        by (auto simp: distinct_map inj_on_def dest: notin_set_remove1)
      moreover have "\<forall>x \<in> set (remove1 r (reg h c)). x < length (store h)"
        using v by (auto dest: notin_set_remove1)
      ultimately show ?thesis unfolding 1 by blast
    next
      case 2
      then show ?thesis using old [of rs] by blast
    qed
  qed
  have d2: "(\<forall>x \<in> set rs. x < length (store ?h')) \<and> distinct (map (res_key ?h') rs)"
    if "rs \<in> set (map snd (Ressources ?h'))" for rs
  proof -
    from sub [OF that] have v: "\<forall>x \<in> set rs. x < length (store h)"
      and d: "distinct (map (res_key h) rs)" by auto
    have m: "map (res_key ?h') rs = map (res_key h) rs"
      using v keys by (intro map_cong) auto
    have "\<forall>x \<in> set rs. x < length (store ?h')" using v by auto
    then show ?thesis unfolding m using d by blast
  qed
  show ?thesis unfolding hub_ok_def using d1 d2 by blast
qed

lemma hub_ok_RemoveRessource:
  "hub_ok h \<Longrightarrow> Hub_RemoveRessource h c r = Some h' \<Longrightarrow> hub_ok h'"
  unfolding Hub_RemoveRessource_eq by (auto simp: hub_ok_remove split: if_splits)




subsection \<open>Fan-out\<close>

lemma deliver_fields [simp]:
  "store (deliver h r smp) = store h" "Ressources (deliver h r smp) = Ressources h"
  "Ctr (deliver h r smp) = Ctr h" "spawned (deliver h r smp) = spawned h"
  "Eps (deliver h r smp) = Eps h"
  "frames (deliver h r smp) =
     frames h @ [\<lparr>CID = ContainerID (store h ! r), Type = Event (store h ! r), Content = Data smp\<rparr>]"
  "inbox (deliver h r smp) = foldl (send_frame (length (frames h))) (inbox h) (Receivers (store h ! r))"
  by (simp_all add: deliver_def Let_def)

lemma reg_deliver [simp]: "reg (deliver h r smp) c = reg h c"
  by (simp add: reg_def)

lemma send_all:
  "foldl (send_frame f) q rs c = q c @ replicate (count_list rs c) f"
proof (induction rs arbitrary: q)
  case Nil
  then show ?case by simp
next
  case (Cons a rs)
  show ?case
    unfolding foldl_Cons Cons.IH
    by (simp add: send_frame_def replicate_append_same)
qed

lemma send_all_distinct:
  "distinct rs \<Longrightarrow>
     foldl (send_frame f) q rs c = (if c \<in> set rs then q c @ [f] else q c)"
  unfolding send_all
  by (induction rs) auto

lemma hub_ok_deliver: "hub_ok h \<Longrightarrow> hub_ok (deliver h r smp)"
  by (rule hub_ok_same_keys [of h]) (simp_all add: res_key_def)

lemma hub_ok_loop: "hub_ok h \<Longrightarrow> hub_ok (HandleRessource_loop h r sets)"
proof (induction sets arbitrary: h)
  case Nil
  then show ?case by simp
next
  case (Cons smp sets)
  have d: "hub_ok (deliver h r smp)" using Cons.prems by (rule hub_ok_deliver)
  show ?case
  proof (cases "length (Receivers (store (deliver h r smp) ! r)) = 0")
    case True
    then have "HandleRessource_loop h r (smp # sets) = deliver h r smp"
      by (simp add: Let_def)
    with d show ?thesis by simp
  next
    case False
    then have "HandleRessource_loop h r (smp # sets) = HandleRessource_loop (deliver h r smp) r sets"
      by (simp add: Let_def)
    with Cons.IH [OF d] show ?thesis by simp
  qed
qed

lemma hub_ok_exit:
  assumes "hub_ok h" "HandleRessource_exit h c r = Some h'"
  shows "hub_ok h'"
proof -
  have "hub_ok (h\<lparr>store := (store h)[r := Quit (store h ! r)]\<rparr>)"
    using assms(1) by (rule hub_ok_store_update) (simp_all add: Quit_def)
  then show ?thesis
    using assms(2) unfolding HandleRessource_exit_def by (rule hub_ok_RemoveRessource)
qed

lemma hub_ok_HandleRessource:
  assumes "hub_ok h" "Hub_HandleRessource h c r sets = Some h'"
  shows "hub_ok h'"
proof -
  have "hub_ok (h\<lparr>store := (store h)[r := SetStreamer (store h ! r) c]\<rparr>)"
    using assms(1) by (rule hub_ok_store_update) (simp_all add: SetStreamer_def)
  then have "hub_ok (HandleRessource_loop (h\<lparr>store := (store h)[r := SetStreamer (store h ! r) c]\<rparr>) r sets)"
    by (rule hub_ok_loop)
  then show ?thesis
    using assms(2) unfolding Hub_HandleRessource_def Let_def by (rule hub_ok_exit)
qed

lemma fanout_loop_static:
  assumes ne: "Receivers (store h ! r) \<noteq> []" and dist: "distinct (Receivers (store h ! r))"
  shows "frames (HandleRessource_loop h r sets) =
           frames h @ map (\<lambda>s. \<lparr>CID = ContainerID (store h ! r), Type = Event (store h ! r),
                                 Content = Data s\<rparr>) sets \<and>
         (\<forall>c \<in> set (Receivers (store h ! r)).
            inbox (HandleRessource_loop h r sets) c =
              inbox h c @ [length (frames h) ..< length (frames h) + length sets]) \<and>
         (\<forall>c. c \<notin> set (Receivers (store h ! r)) \<longrightarrow>
            inbox (HandleRessource_loop h r sets) c = inbox h c) \<and>
         store (HandleRessource_loop h r sets) = store h"
  using ne dist
proof (induction sets arbitrary: h)
  case Nil
  then show ?case by simp
next
  case (Cons smp sets)
  define d where "d = deliver h r smp"
  have st: "store d = store h" by (simp add: d_def)
  have fr: "frames d = frames h @ [\<lparr>CID = ContainerID (store h ! r), Type = Event (store h ! r),
      Content = Data smp\<rparr>]"
    by (simp add: d_def)
  have ib: "inbox d c = (if c \<in> set (Receivers (store h ! r)) then inbox h c @ [length (frames h)]
      else inbox h c)" for c
    using Cons.prems(2) by (simp add: d_def send_all_distinct)
  have step: "HandleRessource_loop h r (smp # sets) = HandleRessource_loop d r sets"
    using Cons.prems(1) by (simp add: Let_def d_def)
  have ih: "frames (HandleRessource_loop d r sets) =
           frames d @ map (\<lambda>s. \<lparr>CID = ContainerID (store d ! r), Type = Event (store d ! r),
                                 Content = Data s\<rparr>) sets \<and>
         (\<forall>c \<in> set (Receivers (store d ! r)).
            inbox (HandleRessource_loop d r sets) c =
              inbox d c @ [length (frames d) ..< length (frames d) + length sets]) \<and>
         (\<forall>c. c \<notin> set (Receivers (store d ! r)) \<longrightarrow>
            inbox (HandleRessource_loop d r sets) c = inbox d c) \<and>
         store (HandleRessource_loop d r sets) = store d"
    using Cons.prems by (intro Cons.IH) (simp_all add: st)
  have upt: "[n ..< n + Suc k] = n # [Suc n ..< Suc n + k]" for n k :: nat
    by (subst upt_rec) simp
  have lenfr: "length (frames d) = Suc (length (frames h))" by (simp add: fr)
  have c1: "frames (HandleRessource_loop d r sets) =
      frames h @ map (\<lambda>s. \<lparr>CID = ContainerID (store h ! r), Type = Event (store h ! r),
                            Content = Data s\<rparr>) (smp # sets)"
    using ih by (simp add: st fr)
  have c2: "inbox (HandleRessource_loop d r sets) c =
      inbox h c @ [length (frames h) ..< length (frames h) + length (smp # sets)]"
    if mem: "c \<in> set (Receivers (store h ! r))" for c
  proof -
    from ih mem have "inbox (HandleRessource_loop d r sets) c =
        inbox d c @ [length (frames d) ..< length (frames d) + length sets]"
      by (simp add: st)
    also have "\<dots> = (inbox h c @ [length (frames h)]) @
        [Suc (length (frames h)) ..< Suc (length (frames h)) + length sets]"
      unfolding lenfr using mem by (simp only: ib if_True)
    also have "\<dots> = inbox h c @ [length (frames h) ..< length (frames h) + Suc (length sets)]"
      unfolding upt by simp
    finally show ?thesis by (simp only: length_Cons)
  qed
  have c3: "inbox (HandleRessource_loop d r sets) c = inbox h c"
    if "c \<notin> set (Receivers (store h ! r))" for c
    using ih that by (simp add: st ib)
  have c4: "store (HandleRessource_loop d r sets) = store h"
    using ih by (simp add: st)
  show ?case
    unfolding step using c1 c2 c3 c4 by blast
qed

text \<open>
  C3. One round of the loop allocates exactly one frame, with the Resource's container id
  and kind and the sample's data, and sends the address of that one frame to each entry of
  the receiver list. Over the samples of a stream, with a non-empty list of distinct
  receivers that does not change meanwhile: the frames allocated are those of the samples,
  in the order of production; every receiver's queue grows by the addresses of exactly
  these frames, in that order, the same for all receivers; the queue of every other client
  and the Resource objects are unchanged. (A send is taken to complete: a receiver that
  does not drain its queue blocks the loop and is outside this statement.)
\<close>

theorem fanout_fidelity:
  assumes ne: "Receivers (store h ! r) \<noteq> []" and dist: "distinct (Receivers (store h ! r))"
  shows "frames (deliver h r smp) =
           frames h @ [\<lparr>CID = ContainerID (store h ! r), Type = Event (store h ! r),
                        Content = Data smp\<rparr>] \<and>
         (\<forall>c. inbox (deliver h r smp) c =
            inbox h c @ replicate (count_list (Receivers (store h ! r)) c) (length (frames h))) \<and>
         frames (HandleRessource_loop h r sets) =
           frames h @ map (\<lambda>s. \<lparr>CID = ContainerID (store h ! r), Type = Event (store h ! r),
                                 Content = Data s\<rparr>) sets \<and>
         (\<forall>c \<in> set (Receivers (store h ! r)).
            inbox (HandleRessource_loop h r sets) c =
              inbox h c @ [length (frames h) ..< length (frames h) + length sets]) \<and>
         (\<forall>c. c \<notin> set (Receivers (store h ! r)) \<longrightarrow>
            inbox (HandleRessource_loop h r sets) c = inbox h c) \<and>
         store (HandleRessource_loop h r sets) = store h"
proof -
  have round: "frames (deliver h r smp) =
      frames h @ [\<lparr>CID = ContainerID (store h ! r), Type = Event (store h ! r),
                   Content = Data smp\<rparr>]"
    by simp
  have sent: "\<forall>c. inbox (deliver h r smp) c =
      inbox h c @ replicate (count_list (Receivers (store h ! r)) c) (length (frames h))"
    by (simp add: send_all)
  from round sent fanout_loop_static [OF ne dist, of sets] show ?thesis by blast
qed

theorem fanout_fidelity_witness:
  "Receivers (store hub_two ! 0) \<noteq> [] \<and> distinct (Receivers (store hub_two ! 0)) \<and>
   frames (HandleRessource_loop hub_two 0 [sample_a, sample_b]) =
     [\<lparr>CID = ''c1'', Type = ''metrics'', Content = ''a''\<rparr>,
      \<lparr>CID = ''c1'', Type = ''metrics'', Content = ''b''\<rparr>] \<and>
   inbox (HandleRessource_loop hub_two 0 [sample_a, sample_b]) 10 = [0, 1] \<and>
   inbox (HandleRessource_loop hub_two 0 [sample_a, sample_b]) 11 = [0, 1] \<and>
   inbox (HandleRessource_loop hub_two 0 [sample_a, sample_b]) 12 = []"
proof -
  have s: "Receivers (store hub_two ! 0) = [10, 11]" "frames hub_two = []"
    "inbox hub_two = (\<lambda>_. [])" "ContainerID (store hub_two ! 0) = ''c1''"
    "Event (store hub_two ! 0) = ''metrics''"
    by (simp_all add: hub_two_def)
  have ne: "Receivers (store hub_two ! 0) \<noteq> []" and d: "distinct (Receivers (store hub_two ! 0))"
    by (simp_all add: s)
  have u: "[0 ..< 2] = [0, Suc 0]" by (simp add: upt_rec)
  from fanout_fidelity [OF ne d, where sets = "[sample_a, sample_b]" and smp = sample_a]
  have "frames (HandleRessource_loop hub_two 0 [sample_a, sample_b]) =
     [\<lparr>CID = ''c1'', Type = ''metrics'', Content = ''a''\<rparr>,
      \<lparr>CID = ''c1'', Type = ''metrics'', Content = ''b''\<rparr>] \<and>
   inbox (HandleRessource_loop hub_two 0 [sample_a, sample_b]) 10 = [0, 1] \<and>
   inbox (HandleRessource_loop hub_two 0 [sample_a, sample_b]) 11 = [0, 1] \<and>
   inbox (HandleRessource_loop hub_two 0 [sample_a, sample_b]) 12 = []"
    unfolding s by (simp add: sample_a_def sample_b_def u)
  with ne d show ?thesis by blast
qed



subsection \<open>The control loop\<close>

lemma Eps_Subscribe [simp]: "Eps (Hub_Subscribe h dem) = Eps h"
  by (simp add: Hub_Subscribe_def Let_def split: option.splits)

lemma Eps_Unsubscribe [simp]: "Eps (Hub_Unsubscribe h dem) = Eps h"
  by (simp add: Hub_Unsubscribe_def split: option.splits)

lemma Eps_ClientLeave [simp]: "Eps (Hub_ClientLeave h c) = Eps h"
  by (simp add: Hub_ClientLeave_def)



lemma hub_ok_Run_select:
  assumes ok: "hub_ok h" and sel: "Run_select h ch = Some h'"
  shows "hub_ok h'"
proof (cases ch)
  case ChSubscribe
  with sel obtain dem q where "h' = Hub_Subscribe (h\<lparr>Eps := (Eps h)\<lparr>Subscribe := q\<rparr>\<rparr>) dem"
    by (auto split: list.splits)
  with ok show ?thesis by (simp add: hub_ok_Subscribe hub_ok_Eps)
next
  case ChUnsubscribe
  with sel obtain dem q where "h' = Hub_Unsubscribe (h\<lparr>Eps := (Eps h)\<lparr>Unsubscribe := q\<rparr>\<rparr>) dem"
    by (auto split: list.splits)
  with ok show ?thesis by (simp add: hub_ok_Unsubscribe hub_ok_Eps)
next
  case ChLeave
  with sel obtain cl q where "h' = Hub_ClientLeave (h\<lparr>Eps := (Eps h)\<lparr>Leave := q\<rparr>\<rparr>) cl"
    by (auto split: list.splits)
  with ok show ?thesis by (simp add: hub_ok_ClientLeave hub_ok_Eps)
next
  case ChRelay
  with sel show ?thesis by simp
qed

lemma hub_ok_Run: "hub_ok h \<Longrightarrow> Hub_Run h sched = Some h' \<Longrightarrow> hub_ok h'"
proof (induction sched arbitrary: h)
  case Nil
  then show ?case by simp
next
  case (Cons ch sched)
  then obtain h1 where s1: "Run_select h ch = Some h1" and rest: "Hub_Run h1 sched = Some h'"
    by (auto split: option.splits)
  from hub_ok_Run_select [OF Cons.prems(1) s1] rest show ?case by (rule Cons.IH)
qed




subsection \<open>The scenario of the specification\<close>

text \<open>
  The first Subscribe creates one Resource with client 1, the second reuses it, so that
  its receivers are 1 and 2. After the Unsubscribe of 1 and the leave of 2 the receiver
  list is empty and the Resource is still registered. The fan-out goroutine, run from
  there on two samples, reads the first, sends it to nobody, stops, quits the Resource and
  removes it from the registry.
\<close>

lemma scenario_subscribed:
  "map_option (\<lambda>h. (Ressources h, map Receivers (store h), spawned h))
     (Hub_Run hub_scenario [ChSubscribe, ChSubscribe]) = Some ([(0, [0])], [ [1, 2] ], [(0, 0)])"
  by code_simp

lemma scenario_left:
  "map_option (\<lambda>h. (Ressources h, map Receivers (store h), spawned h))
     (Hub_Run hub_scenario [ChSubscribe, ChSubscribe, ChUnsubscribe, ChLeave]) =
   Some ([(0, [0])], [ [] ], [(0, 0)])"
  by code_simp

lemma scenario_torn_down:
  "map_option (\<lambda>h. (Ressources h, map Receivers (store h), map Quitted (store h), frames h))
     (Option.bind (Hub_Run hub_scenario [ChSubscribe, ChSubscribe, ChUnsubscribe, ChLeave])
        (\<lambda>h. Hub_HandleRessource h 0 0 [sample_a, sample_b])) =
   Some ([(0, [])], [ [], [] ], [True, False],
         [\<lparr>CID = ''c1'', Type = ''metrics'', Content = ''a''\<rparr>])"
  by code_simp

section \<open>Theorems about the controller\<close>

lemma inv_calls_logEventExec [simp]: "inv_calls (logEventExec err e) = []"
  by (simp add: logEventExec_def split: option.splits)

lemma inv_calls_append [simp]: "inv_calls (xs @ ys) = inv_calls xs @ inv_calls ys"
  by (induction xs rule: inv_calls.induct) simp_all



text \<open>
  \<open>Controller.Init\<close> returns the first failure among its four initialisers, and \<open>nil\<close>
  only when none fails.
\<close>

lemma Controller_Init_propagates:
  "fst (Controller_Init env) =
     (case Events_Init env of Some err \<Rightarrow> Some err
      | None \<Rightarrow> (case Images_Init env of Some err \<Rightarrow> Some err
      | None \<Rightarrow> (case Containers_Init env of Some err \<Rightarrow> Some err
      | None \<Rightarrow> DB_Init env)))"
  by (simp add: Controller_Init_def split: option.splits)

text \<open>
  C8. With a persistence sink whose \<open>Init\<close> fails, \<open>Controller.Init\<close> returns the error,
  but \<open>API.Run\<close>, its caller, drops it and goes on to start the hub's loop and the
  router: startup is not aborted. \<open>Storage.Init\<close> logs the same failure and returns
  \<open>nil\<close>.
\<close>

theorem API_Run_continues_after_init_failure:
  "fst (Controller_Init db_down) = Some ''connection refused'' \<and>
   API_Run db_down =
     [Info ''- CONTROLLER - starting'', GoHandleEvents, GoFeedWriter,
      Errorf (''- STORAGE - (db) failed to init: connection refused'' @ [CHR 0x0A]),
      GoHubRun, RouterRun] \<and>
   fst (Storage_Init db_down) = None"
  by (simp add: API_Run_def Controller_Init_def Storage_Init_def db_down_def)

section \<open>Theorems about the handlers\<close>

lemma metrics_loop_no_404: "\<not> list_ex is_404 (metrics_loop err xs)"
  by (induction err xs rule: metrics_loop.induct) (simp_all split: option.splits)

lemma logs_loop_no_404: "\<not> list_ex is_404 (logs_loop xs)"
  by (induction xs rule: logs_loop.induct) (simp_all split: option.splits)

text \<open>
  C10. Whatever the lookup returns, \<open>nil\<close> or the address of a Container that exists, it
  differs from the address of the Container allocated for the comparison. So none of
  \<open>API.Container\<close>, \<open>metricsWS\<close> and \<open>logsWS\<close> ever writes a response with the status
  404, whether or not the container exists.
\<close>

theorem not_found_branch_unreachable:
  assumes lv: "live w (Controller_Container w cid)"
  shows "Controller_Container w cid \<noteq> fst (new_Container w) \<and>
         \<not> list_ex is_404 (API_Container w marshal cid) \<and>
         \<not> list_ex is_404 (API_metricsWS w stream upgrade cid) \<and>
         \<not> list_ex is_404 (API_logsWS w stream upgrade cid)"
proof -
  have ne: "Controller_Container w cid \<noteq> Addr (next_addr w)"
    using lv by (cases "Controller_Container w cid") auto
  have a: "Controller_Container w cid \<noteq> fst (new_Container w)"
    using ne by (simp add: new_Container_def)
  have b: "\<not> list_ex is_404 (API_Container w marshal cid)"
    using ne by (simp add: API_Container_def new_Container_def split: option.splits sum.splits)
  have c: "\<not> list_ex is_404 (API_metricsWS w stream upgrade cid)"
    using ne by (simp add: API_metricsWS_def new_Container_def metrics_loop_no_404 split: option.splits)
  have d: "\<not> list_ex is_404 (API_logsWS w stream upgrade cid)"
    using ne by (simp add: API_logsWS_def new_Container_def logs_loop_no_404 split: option.splits)
  from a b c d show ?thesis by blast
qed

theorem not_found_branch_unreachable_witness:
  "live world_example (Controller_Container world_example ''nope'') \<and>
   Controller_Container world_example ''nope'' = Nil \<and>
   \<not> list_ex is_404 (API_Container world_example marshal_example ''nope'') \<and>
   \<not> list_ex is_404 (API_metricsWS world_example stream_example None ''nope'') \<and>
   \<not> list_ex is_404 (API_logsWS world_example stream_example None ''nope'')"
proof -
  have n: "Controller_Container world_example ''nope'' = Nil"
    by (simp add: world_example_def)
  have lv: "live world_example (Controller_Container world_example ''nope'')"
    unfolding n by simp
  from not_found_branch_unreachable [OF lv, of marshal_example stream_example None] lv n
  show ?thesis by blast
qed

end
